theory Spec2Isabelle
  imports Main "HOL-Library.Multiset" "HOL-Library.Sublist"
begin

section \<open>Python values and the built-ins that seller.py calls\<close>

text \<open>
  The exceptions that the modelled code can raise: \<open>AttributeError\<close> (a method looked
  up on a value that lacks it), \<open>TypeError\<close> and \<open>ValueError\<close> (raised by \<open>int\<close> and
  \<open>range\<close>), and \<open>HTTPError\<close> for every failure of a request
  (\<open>raise_for_status\<close> or the transport).
\<close>

datatype error = AttributeError | TypeError | ValueError | HTTPError

text \<open>
  A cell of the spreadsheet as \<open>to_dict\<close> hands it over: a string, an integer, or
  \<open>None\<close>, which is also what \<open>dict.get\<close> returns for a missing column.
  Floating-point cells are not modelled. Strings are lists of 8-bit characters.
\<close>

datatype pyval = PNone | PStr string | PInt int

definition digit_char :: "nat \<Rightarrow> char" where
  "digit_char n = ''0123456789'' ! n"

fun str_nat :: "nat \<Rightarrow> string" where
  "str_nat n = (if n < 10 then [digit_char n] else str_nat (n div 10) @ [digit_char (n mod 10)])"

declare str_nat.simps [simp del]

text \<open>\<open>str(x)\<close>: a string is returned as it is, an integer in decimal.\<close>

fun py_str :: "pyval \<Rightarrow> string" where
  "py_str PNone = ''None''"
| "py_str (PStr s) = s"
| "py_str (PInt i) = (if i < 0 then CHR ''-'' # str_nat (nat (- i)) else str_nat (nat i))"

text \<open>
  The characters that \<open>int\<close> drops around a literal: the six ASCII blanks and, of the
  characters above them, the next-line and the no-break space.
\<close>

definition is_space :: "char \<Rightarrow> bool" where
  "is_space c =
     (c \<in> set [CHR 0x09, CHR 0x0A, CHR 0x0B, CHR 0x0C, CHR 0x0D, CHR '' '', CHR 0x85, CHR 0xA0])"

definition is_digit :: "char \<Rightarrow> bool" where
  "is_digit c = (c \<in> set ''0123456789'')"

definition digit_val :: "char \<Rightarrow> nat" where
  "digit_val c = of_char c - 48"

definition strip :: "string \<Rightarrow> string" where
  "strip s = rev (dropWhile is_space (rev (dropWhile is_space s)))"

text \<open>
  The digits of a decimal literal after its first digit: digits, with single
  underscores allowed between two digits.
\<close>

fun parse_digits :: "nat \<Rightarrow> string \<Rightarrow> nat option" where
  "parse_digits acc [] = Some acc"
| "parse_digits acc (c # cs) =
     (if is_digit c then parse_digits (10 * acc + digit_val c) cs
      else if c = CHR ''_'' then
        (case cs of
           [] \<Rightarrow> None
         | d # ds \<Rightarrow> if is_digit d then parse_digits (10 * acc + digit_val d) ds else None)
      else None)"

text \<open>
  The interpreter refuses a literal of more digits than this (the default of
  \<open>sys.int_max_str_digits\<close>); underscores, sign and blanks do not count.
\<close>

definition int_max_str_digits :: nat where
  "int_max_str_digits = 4300"

definition parse_nat :: "string \<Rightarrow> nat option" where
  "parse_nat s =
     (if int_max_str_digits < length (filter is_digit s) then None
      else
        (case s of
           [] \<Rightarrow> None
         | c # cs \<Rightarrow> if is_digit c then parse_digits (digit_val c) cs else None))"

text \<open>
  \<open>int(s)\<close> for a string, base 10: surrounding whitespace is dropped, one sign is
  allowed, and anything else than a decimal literal, or a literal of too many
  digits, raises \<open>ValueError\<close>.
\<close>

definition int_of_str :: "string \<Rightarrow> error + int" where
  "int_of_str s =
     (let t = strip s in
      if t \<noteq> [] \<and> hd t = CHR ''-'' then
        (case parse_nat (tl t) of None \<Rightarrow> Inl ValueError | Some n \<Rightarrow> Inr (- int n))
      else if t \<noteq> [] \<and> hd t = CHR ''+'' then
        (case parse_nat (tl t) of None \<Rightarrow> Inl ValueError | Some n \<Rightarrow> Inr (int n))
      else
        (case parse_nat t of None \<Rightarrow> Inl ValueError | Some n \<Rightarrow> Inr (int n)))"

text \<open>\<open>int(x)\<close>.\<close>

fun py_int :: "pyval \<Rightarrow> error + int" where
  "py_int PNone = Inl TypeError"
| "py_int (PStr s) = int_of_str s"
| "py_int (PInt i) = Inr i"

text \<open>\<open>s.split(sep)\<close> for a separator of one character; the result is never empty.\<close>

fun split :: "char \<Rightarrow> string \<Rightarrow> string list" where
  "split sep [] = [[]]"
| "split sep (c # cs) =
     (if c = sep then [] # split sep cs
      else (case split sep cs of [] \<Rightarrow> [[c]] | p # ps \<Rightarrow> (c # p) # ps))"

text \<open>\<open>re.sub("[^0-9]", "", s)\<close>: every character outside \<open>0-9\<close> is deleted.\<close>

definition re_sub_non_digits :: "string \<Rightarrow> string" where
  "re_sub_non_digits s = filter is_digit s"

text \<open>
  \<open>range(start, stop, step)\<close> for the non-negative arguments that \<open>divide\<close> passes;
  a step of zero is rejected by the caller before this is reached.
\<close>

function py_range :: "nat \<Rightarrow> nat \<Rightarrow> nat \<Rightarrow> nat list" where
  "py_range i stop step =
     (if step = 0 \<or> stop \<le> i then [] else i # py_range (i + step) stop step)"
  by pat_completeness auto
termination
  by (relation "measure (\<lambda>(i, stop, step). stop - i)") auto

declare py_range.simps [simp del]

text \<open>The slice \<open>lst[i: j]\<close> for \<open>0 \<le> i \<le> j\<close>; Python clips it to the list.\<close>

definition slice :: "'a list \<Rightarrow> nat \<Rightarrow> nat \<Rightarrow> 'a list" where
  "slice lst i j = take (j - i) (drop i lst)"

section \<open>The data of seller.py\<close>

text \<open>
  A row of the remnants file, with the three columns the code reads:
  \<open>Kod\<close> is the identifier column, \<open>Kolichestvo\<close> the quantity column and \<open>Tsena\<close>
  the price column. A column that is missing from the row reads as \<open>PNone\<close>.
\<close>

record watch =
  Kod :: pyval
  Kolichestvo :: pyval
  Tsena :: pyval

record stock_update =
  offer_id :: string
  stock :: int

record price_update =
  auto_action_enabled :: string
  currency_code :: string
  price_offer_id :: string
  old_price :: string
  price :: string

text \<open>An item of a catalog page and the page itself, as \<open>get_product_list\<close> returns it.\<close>

record product =
  product_id :: int
  product_offer_id :: string

record page =
  items :: "product list"
  total :: int
  last_id :: string

text \<open>
  The marketplace as the code sees it. \<open>server\<close> answers the \<open>n\<close>-th page request,
  which carries the cursor \<open>last_id\<close>; \<open>api\<close> answers an update request, given the
  requests sent before it, with \<open>None\<close> for success.
\<close>

type_synonym server = "nat \<Rightarrow> string \<Rightarrow> error + page"

datatype call = UpdateStocks "stock_update list" | UpdatePrice "price_update list"

type_synonym api = "call list \<Rightarrow> call \<Rightarrow> error option"

section \<open>The functions of seller.py\<close>

subsection \<open>get_offer_ids\<close>

text \<open>
  The \<open>while True\<close> loop of \<open>get_offer_ids\<close>: \<open>n\<close> counts the requests made so far,
  \<open>product_list\<close> is the accumulator. The loop has no bound, so the function is
  partial: \<open>None\<close> stands for a run that never leaves the loop.
\<close>

partial_function (option) fetch_loop ::
  "server \<Rightarrow> nat \<Rightarrow> string \<Rightarrow> product list \<Rightarrow> (error + product list) option" where
  "fetch_loop srv n lastid product_list =
     (case srv n lastid of
        Inl e \<Rightarrow> Some (Inl e)
      | Inr some_prod \<Rightarrow>
          (let product_list' = product_list @ items some_prod in
           if total some_prod = int (length product_list') then Some (Inr product_list')
           else fetch_loop srv (Suc n) (last_id some_prod) product_list'))"

definition get_offer_ids :: "server \<Rightarrow> (error + string list) option" where
  "get_offer_ids srv =
     (case fetch_loop srv 0 [] [] of
        None \<Rightarrow> None
      | Some (Inl e) \<Rightarrow> Some (Inl e)
      | Some (Inr product_list) \<Rightarrow> Some (Inr (map product_offer_id product_list)))"

subsection \<open>create_stocks\<close>

text \<open>The identifier of a row as the code reads it: \<open>str(watch.get(...))\<close> of the identifier column.\<close>

abbreviation kod_str :: "watch \<Rightarrow> string" where
  "kod_str w \<equiv> py_str (Kod w)"

text \<open>Lines 221 to 227: the stock of one matched row.\<close>

definition stock_of :: "watch \<Rightarrow> error + int" where
  "stock_of w =
     (let count = py_str (Kolichestvo w) in
      if count = ''>10'' then Inr 100
      else if count = ''1'' then Inr 0
      else py_int (Kolichestvo w))"

text \<open>
  The first loop of \<open>create_stocks\<close>. The list \<open>offer_ids\<close> is the caller's object and
  is changed in place, so the function returns it next to its result, also when
  \<open>int\<close> raises: the removals made until then stay.
\<close>

fun stocks_loop ::
  "watch list \<Rightarrow> stock_update list \<Rightarrow> string list \<Rightarrow> (error + stock_update list) \<times> string list" where
  "stocks_loop [] stocks offer_ids = (Inr stocks, offer_ids)"
| "stocks_loop (w # rest) stocks offer_ids =
     (if py_str (Kod w) \<in> set offer_ids then
        (case stock_of w of
           Inl e \<Rightarrow> (Inl e, offer_ids)
         | Inr s \<Rightarrow>
             stocks_loop rest
               (stocks @ [\<lparr>offer_id = py_str (Kod w), stock = s\<rparr>])
               (remove1 (py_str (Kod w)) offer_ids))
      else stocks_loop rest stocks offer_ids)"

definition create_stocks ::
  "watch list \<Rightarrow> string list \<Rightarrow> (error + stock_update list) \<times> string list" where
  "create_stocks watch_remnants offer_ids =
     (case stocks_loop watch_remnants [] offer_ids of
        (Inl e, offer_ids') \<Rightarrow> (Inl e, offer_ids')
      | (Inr stocks, offer_ids') \<Rightarrow>
          (Inr (stocks @ map (\<lambda>i. \<lparr>offer_id = i, stock = 0\<rparr>) offer_ids'), offer_ids'))"

subsection \<open>price_conversion and create_prices\<close>

text \<open>Only a string has the method \<open>split\<close>.\<close>

fun price_conversion :: "pyval \<Rightarrow> error + string" where
  "price_conversion (PStr s) = Inr (re_sub_non_digits (hd (split CHR ''.'' s)))"
| "price_conversion PNone = Inl AttributeError"
| "price_conversion (PInt i) = Inl AttributeError"

fun prices_loop :: "watch list \<Rightarrow> price_update list \<Rightarrow> string list \<Rightarrow> error + price_update list" where
  "prices_loop [] prices offer_ids = Inr prices"
| "prices_loop (w # rest) prices offer_ids =
     (if py_str (Kod w) \<in> set offer_ids then
        (case price_conversion (Tsena w) of
           Inl e \<Rightarrow> Inl e
         | Inr p \<Rightarrow>
             prices_loop rest
               (prices @ [\<lparr>auto_action_enabled = ''UNKNOWN'', currency_code = ''RUB'',
                           price_offer_id = py_str (Kod w), old_price = ''0'', price = p\<rparr>])
               offer_ids)
      else prices_loop rest prices offer_ids)"

text \<open>As \<open>create_stocks\<close>, the function returns the caller's list next to its result.\<close>

definition create_prices ::
  "watch list \<Rightarrow> string list \<Rightarrow> (error + price_update list) \<times> string list" where
  "create_prices watch_remnants offer_ids = (prices_loop watch_remnants [] offer_ids, offer_ids)"

subsection \<open>divide\<close>

text \<open>
  The chunks that the generator yields, as \<open>list(divide(lst, n))\<close> collects them.
  \<open>range\<close> raises for a step of zero and is empty for a negative one.
\<close>

definition divide :: "'a list \<Rightarrow> int \<Rightarrow> error + 'a list list" where
  "divide lst n =
     (if n = 0 then Inl ValueError
      else if n < 0 then Inr []
      else Inr (map (\<lambda>i. slice lst i (i + nat n)) (py_range 0 (length lst) (nat n))))"

subsection \<open>upload_stocks and main\<close>

text \<open>
  A \<open>for\<close> loop that sends each chunk; \<open>log\<close> collects the requests sent. The first
  failing request ends the loop with its error.
\<close>

fun dispatch :: "api \<Rightarrow> call list \<Rightarrow> call list \<Rightarrow> error option \<times> call list" where
  "dispatch ap [] log = (None, log)"
| "dispatch ap (c # cs) log =
     (case ap log c of
        Some e \<Rightarrow> (Some e, log @ [c])
      | None \<Rightarrow> dispatch ap cs (log @ [c]))"

text \<open>
  The body of \<open>upload_stocks\<close>: the value returned (or the exception raised) and the
  requests sent.
\<close>

definition upload_stocks ::
  "server \<Rightarrow> api \<Rightarrow> watch list \<Rightarrow>
   ((error + stock_update list \<times> stock_update list) \<times> call list) option" where
  "upload_stocks srv ap watch_remnants =
     (case get_offer_ids srv of
        None \<Rightarrow> None
      | Some (Inl e) \<Rightarrow> Some (Inl e, [])
      | Some (Inr offer_ids) \<Rightarrow>
          (case create_stocks watch_remnants offer_ids of
             (Inl e, offer_ids') \<Rightarrow> Some (Inl e, [])
           | (Inr stocks, offer_ids') \<Rightarrow>
               (case divide stocks 100 of
                  Inl e \<Rightarrow> Some (Inl e, [])
                | Inr chunks \<Rightarrow>
                    (case dispatch ap (map UpdateStocks chunks) [] of
                       (Some e, log) \<Rightarrow> Some (Inl e, log)
                     | (None, log) \<Rightarrow>
                         Some (Inr (filter (\<lambda>s. stock s \<noteq> 0) stocks, stocks), log)))))"

text \<open>
  The \<open>try\<close> block of \<open>main\<close>. \<open>download\<close> is what \<open>download_stock\<close> returns or
  raises. Every exception is caught and printed, so the result is the error printed,
  if any, and the requests sent.
\<close>

definition main :: "server \<Rightarrow> (error + watch list) \<Rightarrow> api \<Rightarrow> (error option \<times> call list) option" where
  "main srv download ap =
     (case get_offer_ids srv of
        None \<Rightarrow> None
      | Some (Inl e) \<Rightarrow> Some (Some e, [])
      | Some (Inr offer_ids) \<Rightarrow>
          (case download of
             Inl e \<Rightarrow> Some (Some e, [])
           | Inr watch_remnants \<Rightarrow>
               (case create_stocks watch_remnants offer_ids of
                  (Inl e, offer_ids') \<Rightarrow> Some (Some e, [])
                | (Inr stocks, offer_ids') \<Rightarrow>
                    (case divide stocks 100 of
                       Inl e \<Rightarrow> Some (Some e, [])
                     | Inr chunks \<Rightarrow>
                         (case dispatch ap (map UpdateStocks chunks) [] of
                            (Some e, log) \<Rightarrow> Some (Some e, log)
                          | (None, log) \<Rightarrow>
                              (case create_prices watch_remnants offer_ids' of
                                 (Inl e, offer_ids'') \<Rightarrow> Some (Some e, log)
                               | (Inr prices, offer_ids'') \<Rightarrow>
                                   (case divide prices 900 of
                                      Inl e \<Rightarrow> Some (Some e, log)
                                    | Inr pchunks \<Rightarrow>
                                        Some (dispatch ap (map UpdatePrice pchunks) log))))))))"

section \<open>Properties of price_conversion\<close>

lemma split_not_Nil: "split sep s \<noteq> []"
  by (induction s) (auto split: list.splits)

lemma hd_split: "hd (split sep s) = takeWhile (\<lambda>c. c \<noteq> sep) s"
  by (induction s) (use split_not_Nil in \<open>auto split: list.splits\<close>)

text \<open>
  C6: for a string, \<open>price_conversion\<close> returns the digits of the part before the
  first dot, so \<open>5'990.00\<close> gives \<open>5990\<close> and \<open>123.45\<close> gives \<open>123\<close>; for a value
  that is not a string it raises \<open>AttributeError\<close> and converts nothing.
\<close>

theorem price_conversion_digits_before_dot:
  "price_conversion (PStr s) = Inr (filter is_digit (takeWhile (\<lambda>c. c \<noteq> CHR ''.'') s))
   \<and> price_conversion (PStr ''5'990.00'') = Inr ''5990''
   \<and> price_conversion (PStr ''123.45'') = Inr ''123''
   \<and> price_conversion PNone = Inl AttributeError
   \<and> price_conversion (PInt i) = Inl AttributeError"
  by (simp add: hd_split re_sub_non_digits_def is_digit_def)

section \<open>Properties of divide\<close>

lemma slice_take_drop: "slice lst i (i + n) = take n (drop i lst)"
  by (simp add: slice_def)

lemma concat_chunks:
  "0 < n \<Longrightarrow> concat (map (\<lambda>j. take n (drop j lst)) (py_range i (length lst) n)) = drop i lst"
proof (induction i "length lst" n rule: py_range.induct)
  case (1 i step)
  show ?case
  proof (cases "length lst \<le> i")
    case True
    then show ?thesis by (simp add: py_range.simps)
  next
    case False
    with 1 have "concat (map (\<lambda>j. take step (drop j lst)) (py_range (i + step) (length lst) step))
        = drop (i + step) lst" by simp
    with False 1(2) show ?thesis
      by (subst py_range.simps) (simp add: add.commute[of i step] flip: drop_drop)
  qed
qed

lemma chunk_sizes:
  "0 < n \<Longrightarrow> j \<in> set (py_range i (length lst) n) \<Longrightarrow>
     take n (drop j lst) \<noteq> [] \<and> length (take n (drop j lst)) \<le> n"
proof (induction i "length lst" n rule: py_range.induct)
  case (1 i step)
  from 1(3) have nle: "\<not> length lst \<le> i" by (subst (asm) py_range.simps) (auto split: if_splits)
  from 1(3) nle 1(2) have "j = i \<or> j \<in> set (py_range (i + step) (length lst) step)"
    by (subst (asm) py_range.simps) (auto split: if_splits)
  then show ?case
  proof
    assume "j = i" with nle 1(2) show ?thesis by auto
  next
    assume "j \<in> set (py_range (i + step) (length lst) step)"
    with 1 nle show ?thesis by simp
  qed
qed

lemma full_chunks:
  "0 < n \<Longrightarrow> c \<in> set (butlast (map (\<lambda>j. take n (drop j lst)) (py_range i (length lst) n))) \<Longrightarrow>
     length c = n"
proof (induction i "length lst" n arbitrary: c rule: py_range.induct)
  case (1 i step)
  from 1(3) have nle: "\<not> length lst \<le> i" by (subst (asm) py_range.simps) (auto split: if_splits)
  let ?rest = "py_range (i + step) (length lst) step"
  from nle 1(2) have unf: "py_range i (length lst) step = i # ?rest"
    by (subst py_range.simps) simp
  show ?case
  proof (cases "?rest = []")
    case True
    with 1(3) unf show ?thesis by simp
  next
    case False
    then have lt: "i + step < length lst" by (subst (asm) py_range.simps) (auto split: if_splits)
    from 1(3) unf False have "c = take step (drop i lst) \<or>
       c \<in> set (butlast (map (\<lambda>j. take step (drop j lst)) ?rest))" by auto
    then show ?thesis
    proof
      assume "c = take step (drop i lst)" with lt show ?thesis by simp
    next
      assume "c \<in> set (butlast (map (\<lambda>j. take step (drop j lst)) ?rest))"
      moreover from nle 1(2) have "\<not> (step = 0 \<or> length lst \<le> i)" by simp
      ultimately show ?thesis using 1(1) 1(2) by blast
    qed
  qed
qed

lemma divide_10_to_74:
  "divide [10..74::int] 10 =
     Inr [[10..19], [20..29], [30..39], [40..49], [50..59], [60..69], [70..74]]"
  by code_simp

lemma divide_1_to_75:
  "divide [1..75::int] 10 =
     Inr [[1..10], [11..20], [21..30], [31..40], [41..50], [51..60], [61..70], [71..75]]"
  by code_simp

text \<open>
  C5, as amended: for a positive size \<open>n\<close>, \<open>divide\<close> cuts the list into consecutive
  chunks: joined again they give the list, in its order; no chunk is empty or longer
  than \<open>n\<close>; every chunk but the last has exactly \<open>n\<close> elements; the empty list gives
  no chunk. The 75 numbers from 1 to 75 with \<open>n = 10\<close> give eight chunks, seven of
  ten elements and a last one of five. The example of the docstring, the 65 numbers
  from 10 to 74, gives seven chunks, six of ten elements and a last one of five.
\<close>

theorem divide_partitions:
  assumes "0 < n"
  shows "(\<exists>cs. divide lst n = Inr cs \<and> concat cs = lst
           \<and> (\<forall>c \<in> set cs. c \<noteq> [] \<and> int (length c) \<le> n)
           \<and> (\<forall>c \<in> set (butlast cs). int (length c) = n)
           \<and> (lst = [] \<longrightarrow> cs = []))
         \<and> divide [1..75::int] 10 =
             Inr [[1..10], [11..20], [21..30], [31..40], [41..50], [51..60], [61..70], [71..75]]
         \<and> map length [[1..10], [11..20], [21..30], [31..40], [41..50], [51..60], [61..70], [71..75::int]]
             = [10, 10, 10, 10, 10, 10, 10, 5]
         \<and> divide [10..74::int] 10 =
             Inr [[10..19], [20..29], [30..39], [40..49], [50..59], [60..69], [70..74]]
         \<and> map length [[10..19], [20..29], [30..39], [40..49], [50..59], [60..69], [70..74::int]]
             = [10, 10, 10, 10, 10, 10, 5]"
proof -
  let ?cs = "map (\<lambda>j. take (nat n) (drop j lst)) (py_range 0 (length lst) (nat n))"
  from assms have pos: "0 < nat n" by simp
  from assms have d: "divide lst n = Inr ?cs" by (simp add: divide_def slice_take_drop)
  have c: "concat ?cs = lst" using concat_chunks[OF pos, of lst 0] by simp
  have s: "\<forall>c \<in> set ?cs. c \<noteq> [] \<and> int (length c) \<le> n"
    using chunk_sizes[OF pos] assms by fastforce
  have f: "\<forall>c \<in> set (butlast ?cs). int (length c) = n"
    using full_chunks[OF pos] assms by fastforce
  have e: "lst = [] \<longrightarrow> ?cs = []" by (simp add: py_range.simps)
  have l: "map length [[10..19], [20..29], [30..39], [40..49], [50..59], [60..69], [70..74::int]]
             = [10, 10, 10, 10, 10, 10, 5]" by simp
  have l': "map length [[1..10], [11..20], [21..30], [31..40], [41..50], [51..60], [61..70], [71..75::int]]
             = [10, 10, 10, 10, 10, 10, 10, 5]" by simp
  from d c s f e divide_1_to_75 l' divide_10_to_74 l show ?thesis
    by (intro exI[of _ ?cs] conjI)
qed

theorem divide_partitions_witness:
  "(0::int) < 2
   \<and> (\<exists>cs. divide ''abcde'' 2 = Inr cs \<and> concat cs = ''abcde''
           \<and> (\<forall>c \<in> set cs. c \<noteq> [] \<and> int (length c) \<le> 2)
           \<and> (\<forall>c \<in> set (butlast cs). int (length c) = 2)
           \<and> (''abcde'' = [] \<longrightarrow> cs = []))"
  using divide_partitions [of 2 "''abcde''"] by simp

text \<open>
  The example as C5 states it fails: the 75 numbers from 1 to 75 do not give seven
  chunks of sizes 10, 10, 10, 10, 10, 10 and 5, which hold 65 elements, but eight.
\<close>

theorem divide_1_to_75_counterexample:
  "map_sum id (map length) (divide [1..75::int] 10) = Inr [10, 10, 10, 10, 10, 10, 10, 5]"
  by code_simp

section \<open>Properties of create_stocks\<close>

lemma stocks_loop_rows:
  "stocks_loop ws acc ids = (Inr stocks, ids') \<Longrightarrow>
     \<exists>rows es. subseq rows ws \<and> stocks = acc @ es
       \<and> list_all2 (\<lambda>w e. offer_id e = kod_str w \<and> stock_of w = Inr (stock e)) rows es
       \<and> (\<forall>w \<in> set rows. kod_str w \<in> set ids)
       \<and> mset (map kod_str rows) + mset ids' = mset ids
       \<and> (\<forall>w \<in> set ws. kod_str w \<in> set ids \<longrightarrow> kod_str w \<in> kod_str ` set rows)"
proof (induction ws arbitrary: acc ids)
  case Nil
  then show ?case by simp
next
  case (Cons w ws)
  show ?case
  proof (cases "kod_str w \<in> set ids")
    case False
    with Cons.prems have "stocks_loop ws acc ids = (Inr stocks, ids')" by simp
    from Cons.IH[OF this] obtain rows es where r:
      "subseq rows ws" "stocks = acc @ es"
      "list_all2 (\<lambda>w e. offer_id e = kod_str w \<and> stock_of w = Inr (stock e)) rows es"
      "\<forall>w \<in> set rows. kod_str w \<in> set ids"
      "mset (map kod_str rows) + mset ids' = mset ids"
      "\<forall>w \<in> set ws. kod_str w \<in> set ids \<longrightarrow> kod_str w \<in> kod_str ` set rows"
      by blast
    from r(1) have "subseq rows (w # ws)" by (rule list_emb_Cons)
    moreover from r(6) False
    have "\<forall>v \<in> set (w # ws). kod_str v \<in> set ids \<longrightarrow> kod_str v \<in> kod_str ` set rows" by auto
    ultimately show ?thesis using r(2-5) by blast
  next
    case True
    with Cons.prems obtain s where s: "stock_of w = Inr s"
      and rest: "stocks_loop ws (acc @ [\<lparr>offer_id = kod_str w, stock = s\<rparr>]) (remove1 (kod_str w) ids)
                  = (Inr stocks, ids')"
      by (auto split: sum.splits)
    let ?e = "\<lparr>offer_id = kod_str w, stock = s\<rparr>"
    from Cons.IH[OF rest] obtain rows es where r:
      "subseq rows ws" "stocks = (acc @ [?e]) @ es"
      "list_all2 (\<lambda>w e. offer_id e = kod_str w \<and> stock_of w = Inr (stock e)) rows es"
      "\<forall>v \<in> set rows. kod_str v \<in> set (remove1 (kod_str w) ids)"
      "mset (map kod_str rows) + mset ids' = mset (remove1 (kod_str w) ids)"
      "\<forall>v \<in> set ws. kod_str v \<in> set (remove1 (kod_str w) ids) \<longrightarrow> kod_str v \<in> kod_str ` set rows"
      by blast
    have 1: "subseq (w # rows) (w # ws)" using r(1) by simp
    have 2: "stocks = acc @ (?e # es)" using r(2) by simp
    have 3: "list_all2 (\<lambda>w e. offer_id e = kod_str w \<and> stock_of w = Inr (stock e)) (w # rows) (?e # es)"
      using r(3) s by simp
    have 4: "\<forall>v \<in> set (w # rows). kod_str v \<in> set ids"
      using r(4) True set_remove1_subset[of "kod_str w" ids] by auto
    have 5: "mset (map kod_str (w # rows)) + mset ids' = mset ids"
      using r(5) True by simp
    have 6: "\<forall>v \<in> set (w # ws). kod_str v \<in> set ids \<longrightarrow> kod_str v \<in> kod_str ` set (w # rows)"
    proof (intro ballI impI)
      fix v assume v: "v \<in> set (w # ws)" "kod_str v \<in> set ids"
      show "kod_str v \<in> kod_str ` set (w # rows)"
      proof (cases "kod_str v = kod_str w")
        case True then show ?thesis by simp
      next
        case False
        with v have "v \<in> set ws" "kod_str v \<in> set (remove1 (kod_str w) ids)" by auto
        with r(6) show ?thesis by auto
      qed
    qed
    from 1 2 3 4 5 6 show ?thesis by blast
  qed
qed

lemma stocks_loop_remaining:
  "distinct ids \<Longrightarrow> stocks_loop ws acc ids = (Inr stocks, ids') \<Longrightarrow>
     ids' = filter (\<lambda>i. i \<notin> kod_str ` set ws) ids"
proof (induction ws arbitrary: acc ids)
  case Nil
  then show ?case by simp
next
  case (Cons w ws)
  show ?case
  proof (cases "kod_str w \<in> set ids")
    case False
    with Cons.prems have "stocks_loop ws acc ids = (Inr stocks, ids')" by simp
    from Cons.IH[OF Cons.prems(1) this] have "ids' = filter (\<lambda>i. i \<notin> kod_str ` set ws) ids" .
    also from False have "\<dots> = filter (\<lambda>i. i \<notin> kod_str ` set (w # ws)) ids"
      by (intro filter_cong) auto
    finally show ?thesis .
  next
    case True
    with Cons.prems obtain s where
      rest: "stocks_loop ws (acc @ [\<lparr>offer_id = kod_str w, stock = s\<rparr>]) (remove1 (kod_str w) ids)
                  = (Inr stocks, ids')"
      by (auto split: sum.splits)
    from Cons.prems(1) have d: "distinct (remove1 (kod_str w) ids)" by simp
    from Cons.prems(1) have f: "remove1 (kod_str w) ids = filter (\<lambda>i. i \<noteq> kod_str w) ids"
      by (simp add: distinct_remove1_removeAll removeAll_filter_not_eq) metis
    from Cons.IH[OF d rest] have "ids' = filter (\<lambda>i. i \<notin> kod_str ` set ws) (remove1 (kod_str w) ids)" .
    also have "\<dots> = filter (\<lambda>i. i \<notin> kod_str ` set (w # ws)) ids"
      unfolding f by (auto intro: filter_cong)
    finally show ?thesis .
  qed
qed


lemma create_stocks_Inr:
  assumes "create_stocks ws ids = (Inr stocks, ids')"
  obtains st where "stocks_loop ws [] ids = (Inr st, ids')"
    and "stocks = st @ map (\<lambda>i. \<lparr>offer_id = i, stock = 0\<rparr>) ids'"
  using assms by (auto simp: create_stocks_def split: prod.splits sum.splits)

text \<open>
  C1: when the catalog identifiers are free of duplicates and \<open>create_stocks\<close>
  returns, the identifiers of its result are the catalog identifiers, each exactly
  once: first those of the rows the loop matched, a subsequence of the remnants that
  covers every catalog identifier found there, then the catalog identifiers that no
  row carries, in their catalog order.
\<close>

theorem create_stocks_each_offer_id_once:
  assumes "distinct offer_ids" and "create_stocks ws offer_ids = (Inr stocks, ids')"
  shows "mset (map offer_id stocks) = mset offer_ids
       \<and> distinct (map offer_id stocks)
       \<and> (\<exists>rows. subseq rows ws
             \<and> set (map kod_str rows) = set offer_ids \<inter> kod_str ` set ws
             \<and> map offer_id stocks = map kod_str rows @ filter (\<lambda>i. i \<notin> kod_str ` set ws) offer_ids)"
proof -
  from assms(2) obtain st where loop: "stocks_loop ws [] offer_ids = (Inr st, ids')"
    and stocks: "stocks = st @ map (\<lambda>i. \<lparr>offer_id = i, stock = 0\<rparr>) ids'"
    by (rule create_stocks_Inr)
  from stocks_loop_rows[OF loop] obtain rows es where r:
    "subseq rows ws" "st = es"
    "list_all2 (\<lambda>w e. offer_id e = kod_str w \<and> stock_of w = Inr (stock e)) rows es"
    "\<forall>w \<in> set rows. kod_str w \<in> set offer_ids"
    "mset (map kod_str rows) + mset ids' = mset offer_ids"
    "\<forall>w \<in> set ws. kod_str w \<in> set offer_ids \<longrightarrow> kod_str w \<in> kod_str ` set rows"
    by auto
  have rem: "ids' = filter (\<lambda>i. i \<notin> kod_str ` set ws) offer_ids"
    using stocks_loop_remaining[OF assms(1) loop] .
  from r(3) have "list_all2 (\<lambda>w e. kod_str w = offer_id e) rows es"
    by (rule list_all2_mono) simp
  then have ids_es: "map offer_id es = map kod_str rows"
    by (induction rule: list_all2_induct) simp_all
  have m: "map offer_id stocks = map kod_str rows @ ids'"
    using stocks r(2) ids_es by (simp add: comp_def)
  have ms: "mset (map offer_id stocks) = mset offer_ids"
    using m r(5) by simp
  have d: "distinct (map offer_id stocks)"
    using ms assms(1) by (metis mset_eq_imp_distinct_iff)
  have sub: "set rows \<subseteq> set ws"
    using list_emb_set[OF r(1)] by auto
  have s: "set (map kod_str rows) = set offer_ids \<inter> kod_str ` set ws"
    using sub r(4) r(6) by auto
  from r(1) s m rem ms d show ?thesis by blast
qed

theorem create_stocks_each_offer_id_once_witness:
  "distinct [''A'', ''B'']
   \<and> create_stocks [\<lparr>Kod = PStr ''A'', Kolichestvo = PStr ''>10'', Tsena = PStr ''1'000.00''\<rparr>] [''A'', ''B'']
       = (Inr [\<lparr>offer_id = ''A'', stock = 100\<rparr>, \<lparr>offer_id = ''B'', stock = 0\<rparr>], [''B''])
   \<and> mset (map offer_id [\<lparr>offer_id = ''A'', stock = 100\<rparr>, \<lparr>offer_id = ''B'', stock = 0\<rparr>]) = mset [''A'', ''B'']
   \<and> distinct (map offer_id [\<lparr>offer_id = ''A'', stock = 100\<rparr>, \<lparr>offer_id = ''B'', stock = 0\<rparr>])
   \<and> (\<exists>rows. subseq rows [\<lparr>Kod = PStr ''A'', Kolichestvo = PStr ''>10'', Tsena = PStr ''1'000.00''\<rparr>]
         \<and> set (map kod_str rows) = set [''A'', ''B''] \<inter> kod_str ` set [\<lparr>Kod = PStr ''A'', Kolichestvo = PStr ''>10'', Tsena = PStr ''1'000.00''\<rparr>]
         \<and> map offer_id [\<lparr>offer_id = ''A'', stock = 100\<rparr>, \<lparr>offer_id = ''B'', stock = 0\<rparr>]
             = map kod_str rows @ filter (\<lambda>i. i \<notin> kod_str ` set [\<lparr>Kod = PStr ''A'', Kolichestvo = PStr ''>10'', Tsena = PStr ''1'000.00''\<rparr>]) [''A'', ''B''])"
proof -
  have d: "distinct [''A'', ''B'']" by simp
  have h: "create_stocks [\<lparr>Kod = PStr ''A'', Kolichestvo = PStr ''>10'', Tsena = PStr ''1'000.00''\<rparr>] [''A'', ''B'']
       = (Inr [\<lparr>offer_id = ''A'', stock = 100\<rparr>, \<lparr>offer_id = ''B'', stock = 0\<rparr>], [''B''])"
    by (simp add: create_stocks_def stock_of_def)
  show ?thesis
    by (rule conjI[OF d conjI[OF h create_stocks_each_offer_id_once[OF d h]]])
qed

lemma create_stocks_tokens_example: "create_stocks
     [\<lparr>Kod = PStr ''A'', Kolichestvo = PStr ''>10'', Tsena = PNone\<rparr>,
      \<lparr>Kod = PInt 7, Kolichestvo = PStr ''1'', Tsena = PNone\<rparr>,
      \<lparr>Kod = PStr ''C'', Kolichestvo = PStr ''23'', Tsena = PNone\<rparr>]
     [''D'', ''C'', ''7'', ''A'']
   = (Inr [\<lparr>offer_id = ''A'', stock = 100\<rparr>, \<lparr>offer_id = ''7'', stock = 0\<rparr>,
           \<lparr>offer_id = ''C'', stock = 23\<rparr>, \<lparr>offer_id = ''D'', stock = 0\<rparr>], [''D''])"
  by (simp add: create_stocks_def stock_of_def str_nat.simps digit_char_def
        int_of_str_def strip_def is_space_def parse_nat_def int_max_str_digits_def is_digit_def digit_val_def)

text \<open>
  C2: when \<open>create_stocks\<close> returns, its result is the entries of the rows the loop
  matched, followed by an entry with stock 0 for each identifier left in the list.
  A matched row carries a catalog identifier, and its entry has stock 100 when the
  quantity reads \<open>>10\<close>, stock 0 when it reads \<open>1\<close>, and the integer parse of the
  quantity otherwise. Every catalog identifier found in the remnants is matched by a
  row, and a catalog identifier absent from the remnants has an entry, and only
  entries with stock 0. On the tokens of the claim: \<open>>10\<close> gives 100, \<open>1\<close> gives 0,
  \<open>23\<close> gives 23 and the absent identifier gives 0.
\<close>

theorem create_stocks_stock_rule:
  assumes "create_stocks ws offer_ids = (Inr stocks, ids')"
  shows "(\<exists>rows es. subseq rows ws
           \<and> stocks = es @ map (\<lambda>i. \<lparr>offer_id = i, stock = 0\<rparr>) ids'
           \<and> list_all2 (\<lambda>w e. offer_id e = kod_str w \<and> kod_str w \<in> set offer_ids \<and>
                (if py_str (Kolichestvo w) = ''>10'' then stock e = 100
                 else if py_str (Kolichestvo w) = ''1'' then stock e = 0
                 else py_int (Kolichestvo w) = Inr (stock e))) rows es
           \<and> (\<forall>w \<in> set ws. kod_str w \<in> set offer_ids \<longrightarrow> kod_str w \<in> kod_str ` set rows)
           \<and> (\<forall>i \<in> set offer_ids. i \<notin> kod_str ` set ws \<longrightarrow>
                 (\<exists>e \<in> set stocks. offer_id e = i) \<and> (\<forall>e \<in> set stocks. offer_id e = i \<longrightarrow> stock e = 0)))
       \<and> create_stocks
            [\<lparr>Kod = PStr ''A'', Kolichestvo = PStr ''>10'', Tsena = PNone\<rparr>,
             \<lparr>Kod = PInt 7, Kolichestvo = PStr ''1'', Tsena = PNone\<rparr>,
             \<lparr>Kod = PStr ''C'', Kolichestvo = PStr ''23'', Tsena = PNone\<rparr>]
            [''D'', ''C'', ''7'', ''A'']
          = (Inr [\<lparr>offer_id = ''A'', stock = 100\<rparr>, \<lparr>offer_id = ''7'', stock = 0\<rparr>,
                  \<lparr>offer_id = ''C'', stock = 23\<rparr>, \<lparr>offer_id = ''D'', stock = 0\<rparr>], [''D''])"
proof -
  from assms obtain st where loop: "stocks_loop ws [] offer_ids = (Inr st, ids')"
    and stocks: "stocks = st @ map (\<lambda>i. \<lparr>offer_id = i, stock = 0\<rparr>) ids'"
    by (rule create_stocks_Inr)
  from stocks_loop_rows[OF loop] obtain rows es where r:
    "subseq rows ws" "st = es"
    "list_all2 (\<lambda>w e. offer_id e = kod_str w \<and> stock_of w = Inr (stock e)) rows es"
    "\<forall>w \<in> set rows. kod_str w \<in> set offer_ids"
    "mset (map kod_str rows) + mset ids' = mset offer_ids"
    "\<forall>w \<in> set ws. kod_str w \<in> set offer_ids \<longrightarrow> kod_str w \<in> kod_str ` set rows"
    by auto
  let ?R = "\<lambda>w e. offer_id e = kod_str w \<and> kod_str w \<in> set offer_ids \<and>
                (if py_str (Kolichestvo w) = ''>10'' then stock e = 100
                 else if py_str (Kolichestvo w) = ''1'' then stock e = 0
                 else py_int (Kolichestvo w) = Inr (stock e))"
  have a: "list_all2 ?R rows es"
  proof (rule list.rel_mono_strong[OF r(3)])
    fix w e assume "w \<in> set rows" "e \<in> set es"
      and h: "offer_id e = kod_str w \<and> stock_of w = Inr (stock e)"
    with r(4) have k: "kod_str w \<in> set offer_ids" by blast
    from h have "if py_str (Kolichestvo w) = ''>10'' then stock e = 100
                 else if py_str (Kolichestvo w) = ''1'' then stock e = 0
                 else py_int (Kolichestvo w) = Inr (stock e)"
      by (auto simp: stock_of_def Let_def split: if_splits)
    with h k show "?R w e" by blast
  qed
  have sub: "set rows \<subseteq> set ws"
    using list_emb_set[OF r(1)] by auto
  from r(3) have "list_all2 (\<lambda>w e. kod_str w = offer_id e) rows es"
    by (rule list_all2_mono) simp
  then have ids_es: "map offer_id es = map kod_str rows"
    by (induction rule: list_all2_induct) simp_all
  have rest: "\<forall>i \<in> set offer_ids. i \<notin> kod_str ` set ws \<longrightarrow>
                 (\<exists>e \<in> set stocks. offer_id e = i) \<and> (\<forall>e \<in> set stocks. offer_id e = i \<longrightarrow> stock e = 0)"
  proof (intro ballI impI conjI)
    fix i assume i: "i \<in> set offer_ids" "i \<notin> kod_str ` set ws"
    with sub have "i \<notin> set (map kod_str rows)" by auto
    then have ni: "i \<notin># mset (map kod_str rows)" by simp
    from i(1) have "i \<in># mset (map kod_str rows) + mset ids'" using r(5) by simp
    with ni have "i \<in> set ids'" by simp
    then show "\<exists>e \<in> set stocks. offer_id e = i" using stocks by force
    fix e assume e: "e \<in> set stocks" "offer_id e = i"
    from ids_es have "offer_id ` set es = kod_str ` set rows" by (metis set_map)
    with sub i(2) e(2) have "e \<notin> set es" by blast
    with e(1) stocks r(2) show "stock e = 0" by auto
  qed
  from r(1) stocks r(2) a r(6) rest have "\<exists>rows es. subseq rows ws
           \<and> stocks = es @ map (\<lambda>i. \<lparr>offer_id = i, stock = 0\<rparr>) ids'
           \<and> list_all2 ?R rows es
           \<and> (\<forall>w \<in> set ws. kod_str w \<in> set offer_ids \<longrightarrow> kod_str w \<in> kod_str ` set rows)
           \<and> (\<forall>i \<in> set offer_ids. i \<notin> kod_str ` set ws \<longrightarrow>
                 (\<exists>e \<in> set stocks. offer_id e = i) \<and> (\<forall>e \<in> set stocks. offer_id e = i \<longrightarrow> stock e = 0))"
    by blast
  then show ?thesis using create_stocks_tokens_example by (rule conjI)
qed

theorem create_stocks_stock_rule_witness:
  "create_stocks [\<lparr>Kod = PStr ''A'', Kolichestvo = PStr ''>10'', Tsena = PStr ''1'000.00''\<rparr>] [''A'', ''B'']
     = (Inr [\<lparr>offer_id = ''A'', stock = 100\<rparr>, \<lparr>offer_id = ''B'', stock = 0\<rparr>], [''B''])
   \<and> (\<exists>rows es. subseq rows [\<lparr>Kod = PStr ''A'', Kolichestvo = PStr ''>10'', Tsena = PStr ''1'000.00''\<rparr>]
           \<and> [\<lparr>offer_id = ''A'', stock = 100\<rparr>, \<lparr>offer_id = ''B'', stock = 0\<rparr>] = es @ map (\<lambda>i. \<lparr>offer_id = i, stock = 0\<rparr>) [''B'']
           \<and> list_all2 (\<lambda>w e. offer_id e = kod_str w \<and> kod_str w \<in> set [''A'', ''B''] \<and>
                (if py_str (Kolichestvo w) = ''>10'' then stock e = 100
                 else if py_str (Kolichestvo w) = ''1'' then stock e = 0
                 else py_int (Kolichestvo w) = Inr (stock e))) rows es
           \<and> (\<forall>w \<in> set [\<lparr>Kod = PStr ''A'', Kolichestvo = PStr ''>10'', Tsena = PStr ''1'000.00''\<rparr>]. kod_str w \<in> set [''A'', ''B''] \<longrightarrow> kod_str w \<in> kod_str ` set rows)
           \<and> (\<forall>i \<in> set [''A'', ''B'']. i \<notin> kod_str ` set [\<lparr>Kod = PStr ''A'', Kolichestvo = PStr ''>10'', Tsena = PStr ''1'000.00''\<rparr>] \<longrightarrow>
                 (\<exists>e \<in> set [\<lparr>offer_id = ''A'', stock = 100\<rparr>, \<lparr>offer_id = ''B'', stock = 0\<rparr>]. offer_id e = i) \<and> (\<forall>e \<in> set [\<lparr>offer_id = ''A'', stock = 100\<rparr>, \<lparr>offer_id = ''B'', stock = 0\<rparr>]. offer_id e = i \<longrightarrow> stock e = 0)))"
proof -
  have h: "create_stocks [\<lparr>Kod = PStr ''A'', Kolichestvo = PStr ''>10'', Tsena = PStr ''1'000.00''\<rparr>] [''A'', ''B'']
       = (Inr [\<lparr>offer_id = ''A'', stock = 100\<rparr>, \<lparr>offer_id = ''B'', stock = 0\<rparr>], [''B''])"
    by (simp add: create_stocks_def stock_of_def)
  show ?thesis
    by (rule conjI[OF h conjunct1[OF create_stocks_stock_rule[OF h]]])
qed

lemma list_all2_right_ex: "list_all2 P xs ys \<Longrightarrow> y \<in> set ys \<Longrightarrow> \<exists>x \<in> set xs. P x y"
  by (induction rule: list_all2_induct) auto

text \<open>
  C4, as amended: when no row with a catalog identifier has a quantity that parses
  to a negative integer, every entry that \<open>create_stocks\<close> returns has a stock of
  at least 0.
\<close>

theorem create_stocks_nonneg:
  assumes "create_stocks ws offer_ids = (Inr stocks, ids')"
    and "\<forall>w \<in> set ws. kod_str w \<in> set offer_ids \<longrightarrow>
           (\<forall>n. py_int (Kolichestvo w) = Inr n \<longrightarrow> 0 \<le> n)"
  shows "\<forall>e \<in> set stocks. 0 \<le> stock e"
proof
  fix e assume e: "e \<in> set stocks"
  from assms(1) obtain st where loop: "stocks_loop ws [] offer_ids = (Inr st, ids')"
    and stocks: "stocks = st @ map (\<lambda>i. \<lparr>offer_id = i, stock = 0\<rparr>) ids'"
    by (rule create_stocks_Inr)
  from stocks_loop_rows[OF loop] obtain rows es where r:
    "subseq rows ws" "st = es"
    "list_all2 (\<lambda>w e. offer_id e = kod_str w \<and> stock_of w = Inr (stock e)) rows es"
    "\<forall>w \<in> set rows. kod_str w \<in> set offer_ids"
    by auto
  have sub: "set rows \<subseteq> set ws"
    using list_emb_set[OF r(1)] by auto
  show "0 \<le> stock e"
  proof (cases "e \<in> set es")
    case False
    with e stocks r(2) show ?thesis by auto
  next
    case True
    from list_all2_right_ex[OF r(3) True]
    obtain w where w: "w \<in> set rows" "stock_of w = Inr (stock e)" by blast
    with sub r(4) assms(2) have "\<forall>n. py_int (Kolichestvo w) = Inr n \<longrightarrow> 0 \<le> n" by blast
    with w(2) show ?thesis by (auto simp: stock_of_def Let_def split: if_splits)
  qed
qed

theorem create_stocks_nonneg_witness:
  "create_stocks [\<lparr>Kod = PStr ''A'', Kolichestvo = PStr ''>10'', Tsena = PStr ''1'000.00''\<rparr>] [''A'', ''B'']
     = (Inr [\<lparr>offer_id = ''A'', stock = 100\<rparr>, \<lparr>offer_id = ''B'', stock = 0\<rparr>], [''B''])
   \<and> list_all (\<lambda>e. 0 \<le> stock e) [\<lparr>offer_id = ''A'', stock = 100\<rparr>, \<lparr>offer_id = ''B'', stock = 0\<rparr>]"
proof -
  have h: "create_stocks [\<lparr>Kod = PStr ''A'', Kolichestvo = PStr ''>10'', Tsena = PStr ''1'000.00''\<rparr>] [''A'', ''B'']
       = (Inr [\<lparr>offer_id = ''A'', stock = 100\<rparr>, \<lparr>offer_id = ''B'', stock = 0\<rparr>], [''B''])"
    by (simp add: create_stocks_def stock_of_def)
  have q: "\<forall>w \<in> set [\<lparr>Kod = PStr ''A'', Kolichestvo = PStr ''>10'', Tsena = PStr ''1'000.00''\<rparr>]. kod_str w \<in> set [''A'', ''B''] \<longrightarrow>
           (\<forall>n. py_int (Kolichestvo w) = Inr n \<longrightarrow> 0 \<le> n)"
    by (simp add: int_of_str_def strip_def is_space_def parse_nat_def int_max_str_digits_def is_digit_def)
  have "list_all (\<lambda>e. 0 \<le> stock e) [\<lparr>offer_id = ''A'', stock = 100\<rparr>, \<lparr>offer_id = ''B'', stock = 0\<rparr>]"
    unfolding list_all_iff by (rule create_stocks_nonneg[OF h q])
  with h show ?thesis by (rule conjI)
qed

text \<open>
  C4 as stated fails: nothing in \<open>create_stocks\<close> rejects a negative quantity, so the
  quantity \<open>-5\<close> of a catalogued row becomes the stock \<open>-5\<close>.
\<close>

theorem create_stocks_negative_counterexample:
  "create_stocks [\<lparr>Kod = PStr ''A'', Kolichestvo = PStr ''-5'', Tsena = PStr ''100''\<rparr>] [''A'']
   = (Inr [\<lparr>offer_id = ''A'', stock = - 5\<rparr>], [])"
  by (simp add: create_stocks_def stock_of_def
        int_of_str_def strip_def is_space_def parse_nat_def int_max_str_digits_def is_digit_def digit_val_def)

text \<open>
  C9, as amended: \<open>create_prices\<close> leaves the list of identifiers as it was; when
  that list is free of duplicates and \<open>create_stocks\<close> returns, the list it leaves
  is the original one without the identifiers found in the remnants, the others in
  their order.
\<close>

theorem offer_ids_after_derivation:
  assumes "distinct offer_ids" and "create_stocks ws offer_ids = (Inr stocks, ids')"
  shows "ids' = filter (\<lambda>i. i \<notin> kod_str ` set ws) offer_ids
       \<and> snd (create_prices ws offer_ids) = offer_ids"
proof -
  from assms(2) obtain st where loop: "stocks_loop ws [] offer_ids = (Inr st, ids')"
    by (rule create_stocks_Inr)
  from stocks_loop_remaining[OF assms(1) loop] show ?thesis
    by (simp add: create_prices_def)
qed

theorem offer_ids_after_derivation_witness:
  "distinct [''A'', ''B'']
   \<and> create_stocks [\<lparr>Kod = PStr ''A'', Kolichestvo = PStr ''>10'', Tsena = PStr ''1'000.00''\<rparr>] [''A'', ''B'']
       = (Inr [\<lparr>offer_id = ''A'', stock = 100\<rparr>, \<lparr>offer_id = ''B'', stock = 0\<rparr>], [''B''])
   \<and> [''B''] = filter (\<lambda>i. i \<notin> kod_str ` set [\<lparr>Kod = PStr ''A'', Kolichestvo = PStr ''>10'', Tsena = PStr ''1'000.00''\<rparr>]) [''A'', ''B'']
   \<and> snd (create_prices [\<lparr>Kod = PStr ''A'', Kolichestvo = PStr ''>10'', Tsena = PStr ''1'000.00''\<rparr>] [''A'', ''B'']) = [''A'', ''B'']"
proof -
  have d: "distinct [''A'', ''B'']" by simp
  have h: "create_stocks [\<lparr>Kod = PStr ''A'', Kolichestvo = PStr ''>10'', Tsena = PStr ''1'000.00''\<rparr>] [''A'', ''B'']
       = (Inr [\<lparr>offer_id = ''A'', stock = 100\<rparr>, \<lparr>offer_id = ''B'', stock = 0\<rparr>], [''B''])"
    by (simp add: create_stocks_def stock_of_def)
  show ?thesis
    by (rule conjI[OF d conjI[OF h offer_ids_after_derivation[OF d h]]])
qed

text \<open>
  C9 as stated fails on a list with a repeated identifier: \<open>remove\<close> deletes one
  occurrence for each matching row, so the identifier \<open>A\<close>, matched by the only
  row, is still in the list afterwards.
\<close>

theorem create_stocks_duplicate_counterexample:
  "create_stocks [\<lparr>Kod = PStr ''A'', Kolichestvo = PStr ''5'', Tsena = PStr ''100''\<rparr>] [''A'', ''A'']
   = (Inr [\<lparr>offer_id = ''A'', stock = 5\<rparr>, \<lparr>offer_id = ''A'', stock = 0\<rparr>], [''A''])"
  by (simp add: create_stocks_def stock_of_def
        int_of_str_def strip_def is_space_def parse_nat_def int_max_str_digits_def is_digit_def digit_val_def)

section \<open>Properties of create_prices\<close>

lemma prices_loop_rows:
  "prices_loop ws acc ids = Inr prices \<Longrightarrow>
     \<exists>ps. prices = acc @ ps \<and>
       list_all2 (\<lambda>w p. price_offer_id p = kod_str w \<and> price_conversion (Tsena w) = Inr (price p)
          \<and> currency_code p = ''RUB'' \<and> old_price p = ''0'' \<and> auto_action_enabled p = ''UNKNOWN'')
         (filter (\<lambda>w. kod_str w \<in> set ids) ws) ps"
proof (induction ws arbitrary: acc)
  case Nil
  then show ?case by simp
next
  case (Cons w ws)
  show ?case
  proof (cases "kod_str w \<in> set ids")
    case False
    with Cons.prems have "prices_loop ws acc ids = Inr prices" by simp
    from Cons.IH[OF this] False show ?thesis by simp
  next
    case True
    with Cons.prems obtain p where p: "price_conversion (Tsena w) = Inr p"
      and rest: "prices_loop ws (acc @ [\<lparr>auto_action_enabled = ''UNKNOWN'', currency_code = ''RUB'',
                           price_offer_id = kod_str w, old_price = ''0'', price = p\<rparr>]) ids = Inr prices"
      by (auto split: sum.splits)
    from Cons.IH[OF rest] obtain ps where ps: "prices = (acc @ [\<lparr>auto_action_enabled = ''UNKNOWN'', currency_code = ''RUB'',
                           price_offer_id = kod_str w, old_price = ''0'', price = p\<rparr>]) @ ps"
       "list_all2 (\<lambda>w p. price_offer_id p = kod_str w \<and> price_conversion (Tsena w) = Inr (price p)
          \<and> currency_code p = ''RUB'' \<and> old_price p = ''0'' \<and> auto_action_enabled p = ''UNKNOWN'')
         (filter (\<lambda>w. kod_str w \<in> set ids) ws) ps" by blast
    show ?thesis
      by (rule exI[of _ "\<lparr>auto_action_enabled = ''UNKNOWN'', currency_code = ''RUB'',
                           price_offer_id = kod_str w, old_price = ''0'', price = p\<rparr> # ps"])
         (use ps p True in simp)
  qed
qed

text \<open>
  C8: when \<open>create_prices\<close> returns, its result has one entry for each row of the
  remnants whose identifier is in the list, in remnants order: the entry carries the
  identifier of the row, the converted price column of the row, the currency
  \<open>RUB\<close>, the old price \<open>0\<close> and \<open>UNKNOWN\<close> for the automatic action. An
  identifier of the list that no row carries has no entry.
\<close>

theorem create_prices_matched_rows:
  assumes "create_prices ws offer_ids = (Inr prices, ids')"
  shows "list_all2 (\<lambda>w p. price_offer_id p = kod_str w \<and> price_conversion (Tsena w) = Inr (price p)
            \<and> currency_code p = ''RUB'' \<and> old_price p = ''0'' \<and> auto_action_enabled p = ''UNKNOWN'')
           (filter (\<lambda>w. kod_str w \<in> set offer_ids) ws) prices
       \<and> map price_offer_id prices = filter (\<lambda>i. i \<in> set offer_ids) (map kod_str ws)
       \<and> (\<forall>i \<in> set offer_ids. i \<notin> kod_str ` set ws \<longrightarrow> i \<notin> price_offer_id ` set prices)"
proof -
  from assms have "prices_loop ws [] offer_ids = Inr prices" by (auto simp: create_prices_def)
  from prices_loop_rows[OF this] have a: "list_all2 (\<lambda>w p. price_offer_id p = kod_str w \<and> price_conversion (Tsena w) = Inr (price p)
            \<and> currency_code p = ''RUB'' \<and> old_price p = ''0'' \<and> auto_action_enabled p = ''UNKNOWN'')
           (filter (\<lambda>w. kod_str w \<in> set offer_ids) ws) prices" by simp
  then have "list_all2 (\<lambda>w p. kod_str w = price_offer_id p) (filter (\<lambda>w. kod_str w \<in> set offer_ids) ws) prices"
    by (rule list_all2_mono) simp
  then have "map price_offer_id prices = map kod_str (filter (\<lambda>w. kod_str w \<in> set offer_ids) ws)"
    by (induction rule: list_all2_induct) simp_all
  then have b: "map price_offer_id prices = filter (\<lambda>i. i \<in> set offer_ids) (map kod_str ws)"
    by (simp add: filter_map comp_def)
  have c: "\<forall>i \<in> set offer_ids. i \<notin> kod_str ` set ws \<longrightarrow> i \<notin> price_offer_id ` set prices"
  proof (intro ballI impI)
    fix i assume "i \<in> set offer_ids" "i \<notin> kod_str ` set ws"
    then have "i \<notin> set (filter (\<lambda>i. i \<in> set offer_ids) (map kod_str ws))" by auto
    with b show "i \<notin> price_offer_id ` set prices" by (metis set_map)
  qed
  from a b c show ?thesis by blast
qed

theorem create_prices_matched_rows_witness:
  "create_prices [\<lparr>Kod = PStr ''A'', Kolichestvo = PStr ''>10'', Tsena = PStr ''1'000.00''\<rparr>] [''A'', ''B'']
     = (Inr [\<lparr>auto_action_enabled = ''UNKNOWN'', currency_code = ''RUB'', price_offer_id = ''A'', old_price = ''0'', price = ''1000''\<rparr>], [''A'', ''B''])
   \<and> list_all2 (\<lambda>w p. price_offer_id p = kod_str w \<and> price_conversion (Tsena w) = Inr (price p)
            \<and> currency_code p = ''RUB'' \<and> old_price p = ''0'' \<and> auto_action_enabled p = ''UNKNOWN'')
           (filter (\<lambda>w. kod_str w \<in> set [''A'', ''B'']) [\<lparr>Kod = PStr ''A'', Kolichestvo = PStr ''>10'', Tsena = PStr ''1'000.00''\<rparr>]) [\<lparr>auto_action_enabled = ''UNKNOWN'', currency_code = ''RUB'', price_offer_id = ''A'', old_price = ''0'', price = ''1000''\<rparr>]
   \<and> map price_offer_id [\<lparr>auto_action_enabled = ''UNKNOWN'', currency_code = ''RUB'', price_offer_id = ''A'', old_price = ''0'', price = ''1000''\<rparr>] = filter (\<lambda>i. i \<in> set [''A'', ''B'']) (map kod_str [\<lparr>Kod = PStr ''A'', Kolichestvo = PStr ''>10'', Tsena = PStr ''1'000.00''\<rparr>])"
proof -
  have h: "create_prices [\<lparr>Kod = PStr ''A'', Kolichestvo = PStr ''>10'', Tsena = PStr ''1'000.00''\<rparr>] [''A'', ''B'']
     = (Inr [\<lparr>auto_action_enabled = ''UNKNOWN'', currency_code = ''RUB'', price_offer_id = ''A'', old_price = ''0'', price = ''1000''\<rparr>], [''A'', ''B''])"
    by (simp add: create_prices_def re_sub_non_digits_def is_digit_def)
  note t = create_prices_matched_rows[OF h]
  show ?thesis
    by (rule conjI[OF h conjI[OF conjunct1[OF t] conjunct1[OF conjunct2[OF t]]]])
qed

section \<open>Properties of get_offer_ids\<close>

lemma fetch_loop_pages:
  assumes "pgs \<noteq> []"
    and "\<forall>j < length pgs. srv (n + j) (if j = 0 then c else last_id (pgs ! (j - 1))) = Inr (pgs ! j)"
    and "total (last pgs) = int (length acc + length (concat (map items pgs)))"
    and "\<forall>k. Suc k < length pgs \<longrightarrow>
           total (pgs ! k) \<noteq> int (length acc + length (concat (map items (take (Suc k) pgs))))"
  shows "fetch_loop srv n c acc = Some (Inr (acc @ concat (map items pgs)))"
  using assms
proof (induction pgs arbitrary: n c acc)
  case Nil
  then show ?case by simp
next
  case (Cons p ps)
  from Cons.prems(2) have p: "srv n c = Inr p" by force
  show ?case
  proof (cases "ps = []")
    case True
    with Cons.prems(3) p show ?thesis
      by (subst fetch_loop.simps) simp
  next
    case False
    from Cons.prems(4)[rule_format, of 0] False
    have ns: "total p \<noteq> int (length (acc @ items p))" by (cases ps) auto
    have h2: "\<forall>j < length ps. srv (Suc n + j) (if j = 0 then last_id p else last_id (ps ! (j - 1))) = Inr (ps ! j)"
    proof (intro allI impI)
      fix j assume "j < length ps"
      with Cons.prems(2)[rule_format, of "Suc j"] show
        "srv (Suc n + j) (if j = 0 then last_id p else last_id (ps ! (j - 1))) = Inr (ps ! j)"
        by (cases j) auto
    qed
    have h3: "total (last ps) = int (length (acc @ items p) + length (concat (map items ps)))"
      using Cons.prems(3) False by simp
    have h4: "\<forall>k. Suc k < length ps \<longrightarrow>
           total (ps ! k) \<noteq> int (length (acc @ items p) + length (concat (map items (take (Suc k) ps))))"
    proof (intro allI impI)
      fix k assume "Suc k < length ps"
      with Cons.prems(4)[rule_format, of "Suc k"] show
        "total (ps ! k) \<noteq> int (length (acc @ items p) + length (concat (map items (take (Suc k) ps))))"
        by simp
    qed
    from Cons.IH[OF False h2 h3 h4]
    have "fetch_loop srv (Suc n) (last_id p) (acc @ items p) = Some (Inr ((acc @ items p) @ concat (map items ps)))" .
    with p ns show ?thesis
      by (subst fetch_loop.simps) (simp add: Let_def)
  qed
qed

lemma fetch_loop_returns:
  assumes "fetch_loop srv n c acc = Some r"
  shows "(\<exists>e m c'. r = Inl e \<and> srv m c' = Inl e)
     \<or> (\<exists>pgs. pgs \<noteq> []
           \<and> (\<forall>j < length pgs. srv (n + j) (if j = 0 then c else last_id (pgs ! (j - 1))) = Inr (pgs ! j))
           \<and> r = Inr (acc @ concat (map items pgs))
           \<and> total (last pgs) = int (length acc + length (concat (map items pgs))))"
proof -
  let ?Q = "\<lambda>srv n c acc r pgs. pgs \<noteq> []
           \<and> (\<forall>j < length pgs. srv (n + j) (if j = 0 then c else last_id (pgs ! (j - 1))) = Inr (pgs ! j))
           \<and> r = Inr (acc @ concat (map items pgs))
           \<and> total (last pgs) = int (length acc + length (concat (map items pgs)))"
  let ?P = "\<lambda>srv n c acc r. (\<exists>e m c'. r = Inl e \<and> srv m c' = Inl e) \<or> (\<exists>pgs. ?Q srv n c acc r pgs)"
  have "?P srv n c acc r"
  proof (rule fetch_loop.raw_induct[where P = ?P, OF _ assms])
    fix f srv n c acc r
    assume IH: "\<And>srv n c acc r. f srv n c acc = Some r \<Longrightarrow> ?P srv n c acc r"
      and step: "(case srv n c of Inl e \<Rightarrow> Some (Inl e)
         | Inr some_prod \<Rightarrow>
             let product_list' = acc @ items some_prod
             in if total some_prod = int (length product_list') then Some (Inr product_list')
                else f srv (Suc n) (last_id some_prod) product_list') = Some r"
    show "?P srv n c acc r"
    proof (cases "srv n c")
      case (Inl e)
      with step have "r = Inl e" by simp
      with Inl have "\<exists>e m c'. r = Inl e \<and> srv m c' = Inl e" by blast
      then show ?thesis by (rule disjI1)
    next
      case (Inr p)
      show ?thesis
      proof (cases "total p = int (length (acc @ items p))")
        case True
        with step Inr have r: "r = Inr (acc @ items p)" by (simp add: Let_def)
        have "?Q srv n c acc r [p]"
          using Inr r True by simp
        then show ?thesis by (intro disjI2 exI[of _ "[p]"])
      next
        case False
        with step Inr have "f srv (Suc n) (last_id p) (acc @ items p) = Some r"
          by (simp add: Let_def)
        from IH[OF this] show ?thesis
        proof
          assume "\<exists>e m c'. r = Inl e \<and> srv m c' = Inl e"
          then show ?thesis by (rule disjI1)
        next
          assume "\<exists>pgs. ?Q srv (Suc n) (last_id p) (acc @ items p) r pgs"
          then obtain pgs where g: "pgs \<noteq> []"
            "\<forall>j < length pgs. srv (Suc n + j) (if j = 0 then last_id p else last_id (pgs ! (j - 1))) = Inr (pgs ! j)"
            "r = Inr ((acc @ items p) @ concat (map items pgs))"
            "total (last pgs) = int (length (acc @ items p) + length (concat (map items pgs)))"
            by blast
          have h: "\<forall>j < length (p # pgs). srv (n + j) (if j = 0 then c else last_id ((p # pgs) ! (j - 1))) = Inr ((p # pgs) ! j)"
          proof (intro allI impI)
            fix j assume j: "j < length (p # pgs)"
            show "srv (n + j) (if j = 0 then c else last_id ((p # pgs) ! (j - 1))) = Inr ((p # pgs) ! j)"
            proof (cases j)
              case 0
              with Inr show ?thesis by simp
            next
              case (Suc i)
              with j g(2)[rule_format, of i] show ?thesis by (cases i) auto
            qed
          qed
          have "?Q srv n c acc r (p # pgs)"
            using h g(1) g(3) g(4) by simp
          then show ?thesis by (intro disjI2 exI[of _ "p # pgs"])
        qed
      qed
    qed
  qed
  then show ?thesis .
qed

lemma get_offer_ids_first_stop:
  assumes srv: "\<forall>j < length pgs. srv j (if j = 0 then [] else last_id (pgs ! (j - 1))) = Inr (pgs ! j)"
    and k: "k < length pgs"
    and stop: "total (pgs ! k) = int (length (concat (map items (take (Suc k) pgs))))"
  shows "\<exists>m\<le>k. get_offer_ids srv = Some (Inr (map product_offer_id (concat (map items (take (Suc m) pgs)))))
            \<and> total (pgs ! m) = int (length (concat (map items (take (Suc m) pgs))))
            \<and> (\<forall>j<m. total (pgs ! j) \<noteq> int (length (concat (map items (take (Suc j) pgs)))))"
proof -
  let ?stop = "\<lambda>j. total (pgs ! j) = int (length (concat (map items (take (Suc j) pgs))))"
  define m where "m = (LEAST j. ?stop j)"
  have sm: "?stop m" unfolding m_def using stop by (rule LeastI)
  have mk: "m \<le> k" unfolding m_def using stop by (rule Least_le)
  have least: "\<forall>j<m. \<not> ?stop j" unfolding m_def using not_less_Least by blast
  let ?ps = "take (Suc m) pgs"
  from mk k have len: "length ?ps = Suc m" by simp
  then have ne: "?ps \<noteq> []" by auto
  have h2: "\<forall>j < length ?ps. srv (0 + j) (if j = 0 then [] else last_id (?ps ! (j - 1))) = Inr (?ps ! j)"
  proof (intro allI impI)
    fix j assume "j < length ?ps"
    with len mk k have j: "j < length pgs" "j \<le> m" by simp_all
    from srv j(1) have "srv j (if j = 0 then [] else last_id (pgs ! (j - 1))) = Inr (pgs ! j)" by blast
    with j show "srv (0 + j) (if j = 0 then [] else last_id (?ps ! (j - 1))) = Inr (?ps ! j)"
      by (cases "j = 0") simp_all
  qed
  have lst: "last ?ps = pgs ! m"
    using len ne by (simp add: last_conv_nth)
  have h3: "total (last ?ps) = int (length ([]::product list) + length (concat (map items ?ps)))"
    using sm lst by simp
  have h4: "\<forall>j. Suc j < length ?ps \<longrightarrow>
           total (?ps ! j) \<noteq> int (length ([]::product list) + length (concat (map items (take (Suc j) ?ps))))"
  proof (intro allI impI)
    fix j assume "Suc j < length ?ps"
    with len have jm: "j < m" by simp
    then have "take (Suc j) ?ps = take (Suc j) pgs" by (simp add: min_def)
    with jm least show "total (?ps ! j) \<noteq> int (length ([]::product list) + length (concat (map items (take (Suc j) ?ps))))"
      by simp
  qed
  from fetch_loop_pages[OF ne h2 h3 h4]
  have "get_offer_ids srv = Some (Inr (map product_offer_id (concat (map items ?ps))))"
    by (simp add: get_offer_ids_def)
  with sm mk least show ?thesis by blast
qed

lemma get_offer_ids_returns:
  assumes "get_offer_ids srv = Some r"
  shows "(\<exists>e m c. r = Inl e \<and> srv m c = Inl e)
     \<or> (\<exists>pgs. pgs \<noteq> []
           \<and> (\<forall>j < length pgs. srv j (if j = 0 then [] else last_id (pgs ! (j - 1))) = Inr (pgs ! j))
           \<and> r = Inr (map product_offer_id (concat (map items pgs)))
           \<and> total (last pgs) = int (length (concat (map items pgs))))"
proof -
  from assms obtain r' where f: "fetch_loop srv 0 [] [] = Some r'"
    and r: "r = (case r' of Inl e \<Rightarrow> Inl e | Inr pl \<Rightarrow> Inr (map product_offer_id pl))"
    by (auto simp: get_offer_ids_def split: option.splits sum.splits)
  from fetch_loop_returns[OF f] show ?thesis
  proof
    assume "\<exists>e m c'. r' = Inl e \<and> srv m c' = Inl e"
    with r have "\<exists>e m c. r = Inl e \<and> srv m c = Inl e" by fastforce
    then show ?thesis by (rule disjI1)
  next
    assume "\<exists>pgs. pgs \<noteq> []
           \<and> (\<forall>j < length pgs. srv (0 + j) (if j = 0 then [] else last_id (pgs ! (j - 1))) = Inr (pgs ! j))
           \<and> r' = Inr ([] @ concat (map items pgs))
           \<and> total (last pgs) = int (length ([]::product list) + length (concat (map items pgs)))"
    then obtain pgs where "pgs \<noteq> []"
      "\<forall>j < length pgs. srv (0 + j) (if j = 0 then [] else last_id (pgs ! (j - 1))) = Inr (pgs ! j)"
      "r' = Inr ([] @ concat (map items pgs))"
      "total (last pgs) = int (length ([]::product list) + length (concat (map items pgs)))" by blast
    with r have "pgs \<noteq> []
           \<and> (\<forall>j < length pgs. srv j (if j = 0 then [] else last_id (pgs ! (j - 1))) = Inr (pgs ! j))
           \<and> r = Inr (map product_offer_id (concat (map items pgs)))
           \<and> total (last pgs) = int (length (concat (map items pgs)))" by simp
    then show ?thesis by (intro disjI2 exI[of _ pgs])
  qed
qed

lemma get_offer_ids_2500:
  assumes "srv 0 [] = Inr p0" "srv 1 (last_id p0) = Inr p1" "srv 2 (last_id p1) = Inr p2"
    and "length (items p0) = 1000" "length (items p1) = 1000" "length (items p2) = 500"
    and "total p0 = 2500" "total p1 = 2500" "total p2 = 2500"
  shows "get_offer_ids srv = Some (Inr (map product_offer_id (items p0 @ items p1 @ items p2)))
       \<and> length (items p0 @ items p1 @ items p2) = 2500"
proof -
  have "fetch_loop srv 2 (last_id p1) (items p0 @ items p1) = Some (Inr (items p0 @ items p1 @ items p2))"
    using assms by (subst fetch_loop.simps) (simp add: Let_def)
  then have "fetch_loop srv 1 (last_id p0) (items p0) = Some (Inr (items p0 @ items p1 @ items p2))"
    using assms by (subst fetch_loop.simps) (simp add: Let_def numeral_2_eq_2)
  then have "fetch_loop srv 0 [] [] = Some (Inr (items p0 @ items p1 @ items p2))"
    using assms by (subst fetch_loop.simps) (simp add: Let_def)
  with assms show ?thesis by (simp add: get_offer_ids_def)
qed

lemma get_offer_ids_never_stops:
  "get_offer_ids (\<lambda>n c. Inr \<lparr>items = [], total = 1, last_id = c\<rparr>) = None"
proof (rule ccontr)
  let ?srv = "\<lambda>(n::nat) (c::string). (Inr \<lparr>items = [], total = 1, last_id = c\<rparr> :: error + page)"
  assume "get_offer_ids ?srv \<noteq> None"
  then obtain r where "get_offer_ids ?srv = Some r" by auto
  from get_offer_ids_returns[OF this] show False
  proof
    assume "\<exists>e m c. r = Inl e \<and> ?srv m c = Inl e"
    then show False by simp
  next
    assume "\<exists>pgs. pgs \<noteq> []
           \<and> (\<forall>j < length pgs. ?srv j (if j = 0 then [] else last_id (pgs ! (j - 1))) = Inr (pgs ! j))
           \<and> r = Inr (map product_offer_id (concat (map items pgs)))
           \<and> total (last pgs) = int (length (concat (map items pgs)))"
    then obtain pgs where g: "pgs \<noteq> []"
      "\<forall>j < length pgs. ?srv j (if j = 0 then [] else last_id (pgs ! (j - 1))) = Inr (pgs ! j)"
      "total (last pgs) = int (length (concat (map items pgs)))" by blast
    from g(2) have all: "\<forall>p \<in> set pgs. items p = [] \<and> total p = 1"
      by (auto simp: in_set_conv_nth) (metis page.select_convs(1), metis page.select_convs(2))
    then have c: "concat (map items pgs) = []" by simp
    from all g(1) have t: "total (last pgs) = 1" by simp
    from g(3) have "total (last pgs) = 0" by (simp only: c list.size of_nat_0)
    with t show False by simp
  qed
qed

text \<open>
  C7: the loop of \<open>get_offer_ids\<close> adds the items of each page to its list and
  stops as soon as the length of the list equals the total that the page reports.
  First, when the pages \<open>pgs\<close> are what the server answers in turn (the request
  \<open>j\<close> carries the cursor of page \<open>j - 1\<close>, the first one the empty cursor) and the
  items of the pages up to some page \<open>k\<close> are as many as that page's total, the
  function returns: its result is the identifiers of the items of the pages up to the
  first such page \<open>m\<close>, in the order received, and they are as many as the total of
  page \<open>m\<close>. Second, a run that ends has either met a failed request, or received
  pages whose items are as many as the total of the last one, and returns their
  identifiers: without such a page, and without a failure, the loop never ends.
  Third, the example: pages of 1000, 1000 and 500 items that report the total 2500
  give the 2500 identifiers. Last, a server whose pages are empty and report the
  total 1 keeps the loop running for ever.
\<close>

theorem get_offer_ids_pagination:
  "((\<forall>j < length pgs. srv j (if j = 0 then [] else last_id (pgs ! (j - 1))) = Inr (pgs ! j))
      \<and> k < length pgs
      \<and> total (pgs ! k) = int (length (concat (map items (take (Suc k) pgs))))
     \<longrightarrow> (\<exists>m\<le>k. get_offer_ids srv = Some (Inr (map product_offer_id (concat (map items (take (Suc m) pgs)))))
            \<and> total (pgs ! m) = int (length (concat (map items (take (Suc m) pgs))))
            \<and> (\<forall>j<m. total (pgs ! j) \<noteq> int (length (concat (map items (take (Suc j) pgs)))))))
   \<and> (get_offer_ids srv = Some r
     \<longrightarrow> (\<exists>e m c. r = Inl e \<and> srv m c = Inl e)
       \<or> (\<exists>pgs. pgs \<noteq> []
           \<and> (\<forall>j < length pgs. srv j (if j = 0 then [] else last_id (pgs ! (j - 1))) = Inr (pgs ! j))
           \<and> r = Inr (map product_offer_id (concat (map items pgs)))
           \<and> total (last pgs) = int (length (concat (map items pgs)))))
   \<and> (srv 0 [] = Inr p0 \<and> srv 1 (last_id p0) = Inr p1 \<and> srv 2 (last_id p1) = Inr p2
      \<and> length (items p0) = 1000 \<and> length (items p1) = 1000 \<and> length (items p2) = 500
      \<and> total p0 = 2500 \<and> total p1 = 2500 \<and> total p2 = 2500
     \<longrightarrow> get_offer_ids srv = Some (Inr (map product_offer_id (items p0 @ items p1 @ items p2)))
       \<and> length (items p0 @ items p1 @ items p2) = 2500)
   \<and> get_offer_ids (\<lambda>n c. Inr \<lparr>items = [], total = 1, last_id = c\<rparr>) = None"
proof (intro conjI impI)
  assume "(\<forall>j < length pgs. srv j (if j = 0 then [] else last_id (pgs ! (j - 1))) = Inr (pgs ! j))
      \<and> k < length pgs
      \<and> total (pgs ! k) = int (length (concat (map items (take (Suc k) pgs))))"
  then show "\<exists>m\<le>k. get_offer_ids srv = Some (Inr (map product_offer_id (concat (map items (take (Suc m) pgs)))))
            \<and> total (pgs ! m) = int (length (concat (map items (take (Suc m) pgs))))
            \<and> (\<forall>j<m. total (pgs ! j) \<noteq> int (length (concat (map items (take (Suc j) pgs)))))"
    using get_offer_ids_first_stop[of pgs srv k] by blast
next
  assume "get_offer_ids srv = Some r"
  then show "(\<exists>e m c. r = Inl e \<and> srv m c = Inl e)
       \<or> (\<exists>pgs. pgs \<noteq> []
           \<and> (\<forall>j < length pgs. srv j (if j = 0 then [] else last_id (pgs ! (j - 1))) = Inr (pgs ! j))
           \<and> r = Inr (map product_offer_id (concat (map items pgs)))
           \<and> total (last pgs) = int (length (concat (map items pgs))))"
    by (rule get_offer_ids_returns)
next
  assume a: "srv 0 [] = Inr p0 \<and> srv 1 (last_id p0) = Inr p1 \<and> srv 2 (last_id p1) = Inr p2
      \<and> length (items p0) = 1000 \<and> length (items p1) = 1000 \<and> length (items p2) = 500
      \<and> total p0 = 2500 \<and> total p1 = 2500 \<and> total p2 = 2500"
  then have b: "get_offer_ids srv = Some (Inr (map product_offer_id (items p0 @ items p1 @ items p2)))
       \<and> length (items p0 @ items p1 @ items p2) = 2500"
    by (intro get_offer_ids_2500) simp_all
  from b show "get_offer_ids srv = Some (Inr (map product_offer_id (items p0 @ items p1 @ items p2)))" ..
  from b show "length (items p0 @ items p1 @ items p2) = 2500" ..
next
  show "get_offer_ids (\<lambda>n c. Inr \<lparr>items = [], total = 1, last_id = c\<rparr>) = None"
    by (rule get_offer_ids_never_stops)
qed

theorem get_offer_ids_pagination_witness:
  "get_offer_ids (\<lambda>n c. if n = 0
        then Inr \<lparr>items = [\<lparr>product_id = 1, product_offer_id = ''A''\<rparr>], total = 2, last_id = ''x''\<rparr>
        else Inr \<lparr>items = [\<lparr>product_id = 2, product_offer_id = ''B''\<rparr>], total = 2, last_id = ''y''\<rparr>)
     = Some (Inr [''A'', ''B''])"
proof -
  let ?P0 = "\<lparr>items = [\<lparr>product_id = 1, product_offer_id = ''A''\<rparr>], total = 2, last_id = ''x''\<rparr>"
  let ?P1 = "\<lparr>items = [\<lparr>product_id = 2, product_offer_id = ''B''\<rparr>], total = 2, last_id = ''y''\<rparr>"
  let ?srv = "\<lambda>(n::nat) (c::string). if n = 0 then (Inr ?P0 :: error + page) else Inr ?P1"
  have h: "(\<forall>j < length [?P0, ?P1]. ?srv j (if j = 0 then [] else last_id ([?P0, ?P1] ! (j - 1))) = Inr ([?P0, ?P1] ! j))
      \<and> 1 < length [?P0, ?P1]
      \<and> total ([?P0, ?P1] ! 1) = int (length (concat (map items (take (Suc 1) [?P0, ?P1]))))"
    by (simp add: nth_Cons')
  from get_offer_ids_pagination[THEN conjunct1, rule_format, OF h]
  obtain m where m: "m \<le> 1"
    "get_offer_ids ?srv = Some (Inr (map product_offer_id (concat (map items (take (Suc m) [?P0, ?P1])))))"
    "total ([?P0, ?P1] ! m) = int (length (concat (map items (take (Suc m) [?P0, ?P1]))))"
    by blast
  have "m \<noteq> 0"
  proof
    assume "m = 0"
    with m(3) show False by simp
  qed
  with m(1) have "m = 1" by simp
  with m(2) show ?thesis by simp
qed

section \<open>Properties of main and upload_stocks\<close>

lemma get_offer_ids_one_page:
  "get_offer_ids (\<lambda>n c. Inr \<lparr>items = [\<lparr>product_id = 1, product_offer_id = ''A''\<rparr>,
                                      \<lparr>product_id = 2, product_offer_id = ''B''\<rparr>],
                             total = 2, last_id = ''x''\<rparr>)
     = Some (Inr [''A'', ''B''])"
  unfolding get_offer_ids_def by (subst fetch_loop.simps) simp

lemma prices_loop_no_match:
  "\<forall>w \<in> set ws. kod_str w \<notin> set ids \<Longrightarrow> prices_loop ws acc ids = Inr acc"
  by (induction ws arbitrary: acc) simp_all

lemma dispatch_log:
  "dispatch ap cs log = (e, log') \<Longrightarrow> set log' \<subseteq> set log \<union> set cs"
proof (induction cs arbitrary: log)
  case Nil
  then show ?case by simp
next
  case (Cons c cs)
  show ?case
  proof (cases "ap log c")
    case None
    with Cons.prems have "dispatch ap cs (log @ [c]) = (e, log')" by simp
    from Cons.IH[OF this] show ?thesis by auto
  next
    case (Some err)
    with Cons.prems show ?thesis by auto
  qed
qed

lemma divide_Nil: "0 < n \<Longrightarrow> divide [] n = Inr []"
  by (simp add: divide_def py_range.simps)

lemma divide_pos: "0 < n \<Longrightarrow> \<exists>cs. divide lst n = Inr cs"
  by (simp add: divide_def)

lemma create_prices_after_create_stocks:
  assumes "distinct offer_ids" and "create_stocks ws offer_ids = (Inr stocks, ids')"
  shows "set ids' \<inter> kod_str ` set ws = {}" and "create_prices ws ids' = (Inr [], ids')"
proof -
  from assms(2) obtain st where loop: "stocks_loop ws [] offer_ids = (Inr st, ids')"
    by (rule create_stocks_Inr)
  from stocks_loop_remaining[OF assms(1) loop]
  have "ids' = filter (\<lambda>i. i \<notin> kod_str ` set ws) offer_ids" .
  then have "set ids' = {i \<in> set offer_ids. i \<notin> kod_str ` set ws}" by simp
  then show d: "set ids' \<inter> kod_str ` set ws = {}" by blast
  then have "\<forall>w \<in> set ws. kod_str w \<notin> set ids'" by blast
  from prices_loop_no_match[OF this] show "create_prices ws ids' = (Inr [], ids')"
    by (simp add: create_prices_def)
qed

text \<open>
  C3: in \<open>main\<close>, \<open>create_prices\<close> receives the list that \<open>create_stocks\<close> has
  changed. When the catalog identifiers are free of duplicates, that list holds no
  identifier of the remnants, so \<open>create_prices\<close> returns the empty list, and no
  run of \<open>main\<close> sends a price update, whatever the remnants are and whatever the
  marketplace answers.
\<close>

theorem main_sends_no_price_update:
  assumes "get_offer_ids srv = Some (Inr offer_ids)" and "distinct offer_ids"
    and "main srv download ap = Some (err, log)"
  shows "(\<forall>ps. UpdatePrice ps \<notin> set log)
       \<and> (\<forall>ws stocks ids'. download = Inr ws \<and> create_stocks ws offer_ids = (Inr stocks, ids')
             \<longrightarrow> set ids' \<inter> kod_str ` set ws = {} \<and> create_prices ws ids' = (Inr [], ids'))"
proof (intro conjI allI impI)
  fix ws stocks ids'
  assume a: "download = Inr ws \<and> create_stocks ws offer_ids = (Inr stocks, ids')"
  then have cs: "create_stocks ws offer_ids = (Inr stocks, ids')" ..
  from create_prices_after_create_stocks[OF assms(2) cs]
  show "set ids' \<inter> kod_str ` set ws = {}" and "create_prices ws ids' = (Inr [], ids')" .
next
  fix ps
  show "UpdatePrice ps \<notin> set log"
  proof (cases download)
    case (Inl e)
    with assms(1,3) show ?thesis by (simp add: main_def)
  next
    case (Inr ws)
    obtain res ids' where cs: "create_stocks ws offer_ids = (res, ids')" by (cases "create_stocks ws offer_ids")
    show ?thesis
    proof (cases res)
      case (Inl e)
      with assms(1,3) Inr cs show ?thesis by (simp add: main_def)
    next
      case (Inr stocks)
      obtain chunks where ch: "divide stocks 100 = Inr chunks" using divide_pos[of 100 stocks] by auto
      obtain e1 log1 where d1: "dispatch ap (map UpdateStocks chunks) [] = (e1, log1)"
        by (cases "dispatch ap (map UpdateStocks chunks) []")
      from dispatch_log[OF d1] have l1: "UpdatePrice ps \<notin> set log1" by auto
      from cs Inr have cs': "create_stocks ws offer_ids = (Inr stocks, ids')" by simp
      from create_prices_after_create_stocks(2)[OF assms(2) cs']
      have cp: "create_prices ws ids' = (Inr [], ids')" .
      show ?thesis
      proof (cases e1)
        case None
        with assms(1,3) \<open>download = Inr ws\<close> cs' ch d1 cp have "log = log1"
          by (simp add: main_def divide_Nil)
        with l1 show ?thesis by simp
      next
        case (Some e)
        with assms(1,3) \<open>download = Inr ws\<close> cs' ch d1 have "log = log1"
          by (simp add: main_def)
        with l1 show ?thesis by simp
      qed
    qed
  qed
qed

theorem main_sends_no_price_update_witness:
  "get_offer_ids (\<lambda>n c. Inr \<lparr>items = [\<lparr>product_id = 1, product_offer_id = ''A''\<rparr>,
                                      \<lparr>product_id = 2, product_offer_id = ''B''\<rparr>],
                             total = 2, last_id = ''x''\<rparr>) = Some (Inr [''A'', ''B''])
   \<and> distinct [''A'', ''B'']
   \<and> main (\<lambda>n c. Inr \<lparr>items = [\<lparr>product_id = 1, product_offer_id = ''A''\<rparr>,
                                      \<lparr>product_id = 2, product_offer_id = ''B''\<rparr>],
                             total = 2, last_id = ''x''\<rparr>) (Inr [\<lparr>Kod = PStr ''A'', Kolichestvo = PStr ''>10'', Tsena = PStr ''1'000.00''\<rparr>]) (\<lambda>log c. None)
       = Some (None, [UpdateStocks [\<lparr>offer_id = ''A'', stock = 100\<rparr>, \<lparr>offer_id = ''B'', stock = 0\<rparr>]])
   \<and> (\<forall>ps. UpdatePrice ps \<notin> set [UpdateStocks [\<lparr>offer_id = ''A'', stock = 100\<rparr>, \<lparr>offer_id = ''B'', stock = 0\<rparr>]])
   \<and> set [''B''] \<inter> kod_str ` set [\<lparr>Kod = PStr ''A'', Kolichestvo = PStr ''>10'', Tsena = PStr ''1'000.00''\<rparr>] = {}
   \<and> create_prices [\<lparr>Kod = PStr ''A'', Kolichestvo = PStr ''>10'', Tsena = PStr ''1'000.00''\<rparr>] [''B''] = (Inr [], [''B''])"
proof -
  have g: "get_offer_ids (\<lambda>n c. Inr \<lparr>items = [\<lparr>product_id = 1, product_offer_id = ''A''\<rparr>,
                                      \<lparr>product_id = 2, product_offer_id = ''B''\<rparr>],
                             total = 2, last_id = ''x''\<rparr>) = Some (Inr [''A'', ''B''])"
    by (rule get_offer_ids_one_page)
  have d: "distinct [''A'', ''B'']" by simp
  have cs: "create_stocks [\<lparr>Kod = PStr ''A'', Kolichestvo = PStr ''>10'', Tsena = PStr ''1'000.00''\<rparr>] [''A'', ''B'']
       = (Inr [\<lparr>offer_id = ''A'', stock = 100\<rparr>, \<lparr>offer_id = ''B'', stock = 0\<rparr>], [''B''])"
    by (simp add: create_stocks_def stock_of_def)
  have m: "main (\<lambda>n c. Inr \<lparr>items = [\<lparr>product_id = 1, product_offer_id = ''A''\<rparr>,
                                      \<lparr>product_id = 2, product_offer_id = ''B''\<rparr>],
                             total = 2, last_id = ''x''\<rparr>) (Inr [\<lparr>Kod = PStr ''A'', Kolichestvo = PStr ''>10'', Tsena = PStr ''1'000.00''\<rparr>]) (\<lambda>log c. None)
       = Some (None, [UpdateStocks [\<lparr>offer_id = ''A'', stock = 100\<rparr>, \<lparr>offer_id = ''B'', stock = 0\<rparr>]])"
    by (simp add: main_def g cs divide_def py_range.simps slice_def create_prices_def)
  note t = main_sends_no_price_update[OF g d m]
  note t2 = conjunct2[OF t, rule_format, OF conjI[OF refl cs]]
  show ?thesis
    by (rule conjI[OF g conjI[OF d conjI[OF m conjI[OF conjunct1[OF t] t2]]]])
qed

lemma dispatch_all_ok:
  "\<forall>l c. ap l c = None \<Longrightarrow> dispatch ap cs log = (None, log @ cs)"
  by (induction cs arbitrary: log) simp_all

lemma upload_stocks_returns:
  assumes "get_offer_ids srv = Some r"
  shows "upload_stocks srv ap ws \<noteq> None"
  using assms
  by (cases r; cases "divide (projr (fst (create_stocks ws (projr r)))) 100")
     (auto simp: upload_stocks_def split: sum.splits prod.splits option.splits)

text \<open>
  C10: \<open>upload_stocks\<close> returns a pair whose second component is the list that
  \<open>create_stocks\<close> returned for the catalog identifiers and whose first component
  is that list filtered for a stock other than 0, which keeps the order. First, the
  pair is produced: when \<open>get_offer_ids\<close> returns the identifiers, \<open>create_stocks\<close>
  returns for them and every request succeeds, \<open>upload_stocks\<close> returns that pair,
  having sent the chunks of the list. Second, it ends whenever the pagination does:
  under the page premise of C7 it returns a value or raises, and never runs for
  ever. Third, every pair it returns is of that form.
\<close>

theorem upload_stocks_result:
  "(get_offer_ids srv = Some (Inr offer_ids)
      \<and> create_stocks ws offer_ids = (Inr stocks, ids')
      \<and> (\<forall>l c. ap l c = None)
     \<longrightarrow> (\<exists>chunks. divide stocks 100 = Inr chunks
           \<and> upload_stocks srv ap ws
               = Some (Inr (filter (\<lambda>s. stock s \<noteq> 0) stocks, stocks), map UpdateStocks chunks)))
   \<and> ((\<forall>j < length pgs. srv j (if j = 0 then [] else last_id (pgs ! (j - 1))) = Inr (pgs ! j))
      \<and> k < length pgs
      \<and> total (pgs ! k) = int (length (concat (map items (take (Suc k) pgs))))
     \<longrightarrow> (\<exists>res log. upload_stocks srv ap ws = Some (res, log)))
   \<and> (upload_stocks srv ap ws = Some (Inr (not_empty, result), log)
     \<longrightarrow> (\<exists>offer_ids ids'. get_offer_ids srv = Some (Inr offer_ids)
           \<and> create_stocks ws offer_ids = (Inr result, ids')
           \<and> not_empty = filter (\<lambda>s. stock s \<noteq> 0) result))"
proof (intro conjI impI)
  assume a: "get_offer_ids srv = Some (Inr offer_ids)
      \<and> create_stocks ws offer_ids = (Inr stocks, ids')
      \<and> (\<forall>l c. ap l c = None)"
  obtain chunks where ch: "divide stocks 100 = Inr chunks"
    using divide_pos[of 100 stocks] by auto
  from a have ok: "\<forall>l c. ap l c = None" by blast
  have d: "dispatch ap (map UpdateStocks chunks) [] = (None, [] @ map UpdateStocks chunks)"
    using ok by (rule dispatch_all_ok)
  from a ch d have "upload_stocks srv ap ws
      = Some (Inr (filter (\<lambda>s. stock s \<noteq> 0) stocks, stocks), map UpdateStocks chunks)"
    by (simp add: upload_stocks_def)
  with ch show "\<exists>chunks. divide stocks 100 = Inr chunks
           \<and> upload_stocks srv ap ws
               = Some (Inr (filter (\<lambda>s. stock s \<noteq> 0) stocks, stocks), map UpdateStocks chunks)"
    by blast
next
  assume "(\<forall>j < length pgs. srv j (if j = 0 then [] else last_id (pgs ! (j - 1))) = Inr (pgs ! j))
      \<and> k < length pgs
      \<and> total (pgs ! k) = int (length (concat (map items (take (Suc k) pgs))))"
  then obtain r where "get_offer_ids srv = Some r"
    using get_offer_ids_first_stop[of pgs srv k] by blast
  from upload_stocks_returns[OF this] show "\<exists>res log. upload_stocks srv ap ws = Some (res, log)"
    by auto
next
  assume "upload_stocks srv ap ws = Some (Inr (not_empty, result), log)"
  then show "\<exists>offer_ids ids'. get_offer_ids srv = Some (Inr offer_ids)
           \<and> create_stocks ws offer_ids = (Inr result, ids')
           \<and> not_empty = filter (\<lambda>s. stock s \<noteq> 0) result"
    by (auto simp: upload_stocks_def split: option.splits sum.splits prod.splits)
qed

theorem upload_stocks_result_witness:
  "get_offer_ids (\<lambda>n c. Inr \<lparr>items = [\<lparr>product_id = 1, product_offer_id = ''A''\<rparr>,
                                      \<lparr>product_id = 2, product_offer_id = ''B''\<rparr>],
                             total = 2, last_id = ''x''\<rparr>) = Some (Inr [''A'', ''B''])
   \<and> create_stocks [\<lparr>Kod = PStr ''A'', Kolichestvo = PStr ''>10'', Tsena = PStr ''1'000.00''\<rparr>] [''A'', ''B''] = (Inr [\<lparr>offer_id = ''A'', stock = 100\<rparr>, \<lparr>offer_id = ''B'', stock = 0\<rparr>], [''B''])
   \<and> upload_stocks (\<lambda>n c. Inr \<lparr>items = [\<lparr>product_id = 1, product_offer_id = ''A''\<rparr>,
                                      \<lparr>product_id = 2, product_offer_id = ''B''\<rparr>],
                             total = 2, last_id = ''x''\<rparr>) (\<lambda>log c. None) [\<lparr>Kod = PStr ''A'', Kolichestvo = PStr ''>10'', Tsena = PStr ''1'000.00''\<rparr>]
       = Some (Inr ([\<lparr>offer_id = ''A'', stock = 100\<rparr>], [\<lparr>offer_id = ''A'', stock = 100\<rparr>, \<lparr>offer_id = ''B'', stock = 0\<rparr>]),
               [UpdateStocks [\<lparr>offer_id = ''A'', stock = 100\<rparr>, \<lparr>offer_id = ''B'', stock = 0\<rparr>]])"
proof -
  have g: "get_offer_ids (\<lambda>n c. Inr \<lparr>items = [\<lparr>product_id = 1, product_offer_id = ''A''\<rparr>,
                                      \<lparr>product_id = 2, product_offer_id = ''B''\<rparr>],
                             total = 2, last_id = ''x''\<rparr>) = Some (Inr [''A'', ''B''])"
    by (rule get_offer_ids_one_page)
  have cs: "create_stocks [\<lparr>Kod = PStr ''A'', Kolichestvo = PStr ''>10'', Tsena = PStr ''1'000.00''\<rparr>] [''A'', ''B''] = (Inr [\<lparr>offer_id = ''A'', stock = 100\<rparr>, \<lparr>offer_id = ''B'', stock = 0\<rparr>], [''B''])"
    by (simp add: create_stocks_def stock_of_def)
  have ok: "\<forall>l c. (\<lambda>log c. None) l c = None" by simp
  from conjunct1[OF upload_stocks_result, rule_format, OF conjI[OF g conjI[OF cs ok]]]
  obtain chunks where ch: "divide [\<lparr>offer_id = ''A'', stock = 100\<rparr>, \<lparr>offer_id = ''B'', stock = 0\<rparr>] 100 = Inr chunks"
    and up: "upload_stocks (\<lambda>n c. Inr \<lparr>items = [\<lparr>product_id = 1, product_offer_id = ''A''\<rparr>,
                                      \<lparr>product_id = 2, product_offer_id = ''B''\<rparr>],
                             total = 2, last_id = ''x''\<rparr>) (\<lambda>log c. None) [\<lparr>Kod = PStr ''A'', Kolichestvo = PStr ''>10'', Tsena = PStr ''1'000.00''\<rparr>]
       = Some (Inr (filter (\<lambda>s. stock s \<noteq> 0) [\<lparr>offer_id = ''A'', stock = 100\<rparr>, \<lparr>offer_id = ''B'', stock = 0\<rparr>], [\<lparr>offer_id = ''A'', stock = 100\<rparr>, \<lparr>offer_id = ''B'', stock = 0\<rparr>]),
               map UpdateStocks chunks)"
    by blast
  have "divide [\<lparr>offer_id = ''A'', stock = 100\<rparr>, \<lparr>offer_id = ''B'', stock = 0\<rparr>] 100 = Inr [[\<lparr>offer_id = ''A'', stock = 100\<rparr>, \<lparr>offer_id = ''B'', stock = 0\<rparr>]]"
    by (simp add: divide_def py_range.simps slice_def)
  with ch have "chunks = [[\<lparr>offer_id = ''A'', stock = 100\<rparr>, \<lparr>offer_id = ''B'', stock = 0\<rparr>]]" by simp
  with up have u: "upload_stocks (\<lambda>n c. Inr \<lparr>items = [\<lparr>product_id = 1, product_offer_id = ''A''\<rparr>,
                                      \<lparr>product_id = 2, product_offer_id = ''B''\<rparr>],
                             total = 2, last_id = ''x''\<rparr>) (\<lambda>log c. None) [\<lparr>Kod = PStr ''A'', Kolichestvo = PStr ''>10'', Tsena = PStr ''1'000.00''\<rparr>]
       = Some (Inr ([\<lparr>offer_id = ''A'', stock = 100\<rparr>], [\<lparr>offer_id = ''A'', stock = 100\<rparr>, \<lparr>offer_id = ''B'', stock = 0\<rparr>]),
               [UpdateStocks [\<lparr>offer_id = ''A'', stock = 100\<rparr>, \<lparr>offer_id = ''B'', stock = 0\<rparr>]])"
    by simp
  show ?thesis
    by (rule conjI[OF g conjI[OF cs u]])
qed

end
